theory Spec2Isabelle
  imports Complex_Main "HOL-Library.Code_Target_Nat" "HOL-Library.Log_Nat"
begin

section \<open>Python values used by \<^verbatim>\<open>src/main.py\<close>\<close>

text \<open>
  The two functions of \<^verbatim>\<open>src/main.py\<close> that compute are \<^verbatim>\<open>format_units\<close> (lines 15-22)
  and \<^verbatim>\<open>ServerStatusMonitor._calc_network_speed\<close> (lines 51-69). Both work on Python
  floats and raise no exception of their own; the exceptions they can end in are the ones
  the interpreter raises for a division by zero, for a format specification with a negative
  precision and for a list index out of range.
\<close>

datatype error = ZeroDivisionError | ValueError | IndexError

subsection \<open>Floats\<close>

text \<open>
  A Python float is an IEEE 754 binary64 value: a finite number (a rational here; the
  results of the operations below are always representable), the negative zero, the two
  infinities or a NaN. \<open>Finite 0\<close> is the positive zero.
\<close>

datatype pyfloat = Finite rat | NegZero | PosInf | NegInf | NaN

text \<open>The value of a finite float; 0 for the others.\<close>

primrec val :: "pyfloat \<Rightarrow> rat" where
  "val (Finite r) = r"
| "val NegZero = 0"
| "val PosInf = 0"
| "val NegInf = 0"
| "val NaN = 0"

primrec signbit :: "pyfloat \<Rightarrow> bool" where
  "signbit (Finite r) = (r < 0)"
| "signbit NegZero = True"
| "signbit PosInf = False"
| "signbit NegInf = True"
| "signbit NaN = False"

definition is_zero :: "pyfloat \<Rightarrow> bool" where
  "is_zero x = (x = Finite 0 \<or> x = NegZero)"

definition is_inf :: "pyfloat \<Rightarrow> bool" where
  "is_inf x = (x = PosInf \<or> x = NegInf)"

definition signed_zero :: "bool \<Rightarrow> pyfloat" where
  "signed_zero negative = (if negative then NegZero else Finite 0)"

definition signed_inf :: "bool \<Rightarrow> pyfloat" where
  "signed_inf negative = (if negative then NegInf else PosInf)"

text \<open>A float that is a number: neither an infinity nor a NaN.\<close>

definition is_finite :: "pyfloat \<Rightarrow> bool" where
  "is_finite x = (case x of Finite r \<Rightarrow> True | NegZero \<Rightarrow> True | _ \<Rightarrow> False)"

subsection \<open>Rounding to the nearest float\<close>

definition pow2 :: "int \<Rightarrow> rat" where
  "pow2 k = (if 0 \<le> k then 2 ^ nat k else 1 / 2 ^ nat (- k))"

text \<open>
  The exponent of a positive rational \<open>a\<close>: the \<open>e\<close> with \<open>2 ^ e \<le> a < 2 ^ (e + 1)\<close>. The
  difference \<open>k\<close> of the bit lengths of numerator and denominator is \<open>e\<close> or \<open>e + 1\<close>.
\<close>

definition ilog2 :: "rat \<Rightarrow> int" where
  "ilog2 a =
     (let k = bitlen (fst (quotient_of a)) - bitlen (snd (quotient_of a))
      in if pow2 k \<le> a then k else k - 1)"

text \<open>Rounding to the nearest integer, a tie going to the even one.\<close>

definition round_half_even :: "rat \<Rightarrow> int" where
  "round_half_even x =
     (let f = \<lfloor>x\<rfloor>; d = x - of_int f
      in if d < 1 / 2 then f
         else if 1 / 2 < d then f + 1
         else if even f then f else f + 1)"

text \<open>
  The float nearest to an exact result \<open>r\<close>, a tie going to the even significand: 53 bits
  of significand at the exponent of \<open>r\<close>, but no exponent below \<open>-1022\<close> (the subnormal
  numbers are the multiples of \<open>2 ^ (-1074)\<close>); an infinity from \<open>2 ^ 1024 - 2 ^ 970\<close> on; a
  zero that keeps the sign of \<open>r\<close> when \<open>r\<close> is closer to 0 than to any other float.
\<close>

definition round_double :: "rat \<Rightarrow> pyfloat" where
  "round_double r =
     (if r = 0 then Finite 0
      else if 1023 < ilog2 \<bar>r\<bar> then signed_inf (r < 0)
      else
        (let e = max (ilog2 \<bar>r\<bar>) (- 1022);
             m = round_half_even (\<bar>r\<bar> / pow2 (e - 52))
         in if e = 1023 \<and> m = 2 ^ 53 then signed_inf (r < 0)
            else if m = 0 then signed_zero (r < 0)
            else Finite ((if r < 0 then - 1 else 1) * of_int m * pow2 (e - 52))))"

subsection \<open>The operations of the program\<close>

text \<open>
  The conversion of an integer, rounded as every result is. Beyond the largest float
  Python raises \<^verbatim>\<open>OverflowError\<close> where this gives an infinity; the integers the program
  converts are the literals 1024 and 1048576, byte counts, and differences of the 64-bit
  counters of the operating system, all far below.
\<close>

definition float_of_int :: "int \<Rightarrow> pyfloat" where
  "float_of_int i = round_double (of_int i)"

text \<open>\<^verbatim>\<open>bool(x)\<close> of a float: false for both zeros, true for everything else.\<close>

definition float_truthy :: "pyfloat \<Rightarrow> bool" where
  "float_truthy x = (\<not> is_zero x)"

text \<open>\<^verbatim>\<open>x >= k\<close> for a float and an integer literal; false for a NaN.\<close>

definition float_ge :: "pyfloat \<Rightarrow> int \<Rightarrow> bool" where
  "float_ge x k =
     (case x of
        Finite r \<Rightarrow> of_int k \<le> r
      | NegZero \<Rightarrow> k \<le> 0
      | PosInf \<Rightarrow> True
      | NegInf \<Rightarrow> False
      | NaN \<Rightarrow> False)"

text \<open>
  \<^verbatim>\<open>x - y\<close>. An exact difference of zero is \<^verbatim>\<open>0.0\<close>, except \<^verbatim>\<open>-0.0 - 0.0\<close>, which is
  \<^verbatim>\<open>-0.0\<close>; two infinities of one sign give a NaN.
\<close>

definition float_sub :: "pyfloat \<Rightarrow> pyfloat \<Rightarrow> pyfloat" where
  "float_sub x y =
     (if x = NaN \<or> y = NaN then NaN
      else if is_inf x then (if y = x then NaN else x)
      else if is_inf y then signed_inf (\<not> signbit y)
      else if x = NegZero \<and> y = Finite 0 then NegZero
      else round_double (val x - val y))"

text \<open>
  The division of the processor. A quotient that is zero or infinite has the sign of the
  operands' signs combined.
\<close>

definition float_div :: "pyfloat \<Rightarrow> pyfloat \<Rightarrow> pyfloat" where
  "float_div x y =
     (if x = NaN \<or> y = NaN then NaN
      else if is_inf x then
        (if is_inf y then NaN else signed_inf (signbit x \<noteq> signbit y))
      else if is_inf y then signed_zero (signbit x \<noteq> signbit y)
      else if is_zero y then
        (if is_zero x then NaN else signed_inf (signbit x \<noteq> signbit y))
      else if is_zero x then signed_zero (signbit x \<noteq> signbit y)
      else round_double (val x / val y))"

text \<open>
  \<^verbatim>\<open>x / y\<close>: Python tests the divisor first and raises \<^verbatim>\<open>ZeroDivisionError\<close> when it is
  either zero, whatever \<^verbatim>\<open>x\<close> is; otherwise it divides.
\<close>

definition float_truediv :: "pyfloat \<Rightarrow> pyfloat \<Rightarrow> error + pyfloat" where
  "float_truediv x y = (if is_zero y then Inl ZeroDivisionError else Inr (float_div x y))"

subsection \<open>Fixed-point formatting\<close>

fun digits_of_nat :: "nat \<Rightarrow> string" where
  "digits_of_nat n =
     (if n < 10 then [char_of (48 + n)]
      else digits_of_nat (n div 10) @ [char_of (48 + n mod 10)])"

declare digits_of_nat.simps [simp del]

text \<open>
  The digits of a magnitude \<open>m \<ge> 0\<close> with \<open>p\<close> digits after the point, the last one
  rounded on the exact value of \<open>m\<close>, a tie going to the even digit; no point is printed
  when \<open>p = 0\<close>.
\<close>

definition fixed_str :: "rat \<Rightarrow> nat \<Rightarrow> string" where
  "fixed_str m p =
     (let n = nat (round_half_even (m * 10 ^ p));
          ds = digits_of_nat (n mod 10 ^ p)
      in digits_of_nat (n div 10 ^ p) @
         (if p = 0 then [] else CHR ''.'' # replicate (p - length ds) CHR ''0'' @ ds))"

text \<open>
  \<^verbatim>\<open>f"{x:.Nf}"\<close> for a precision \<open>N \<ge> 0\<close>. The minus sign is printed whenever the sign bit
  of a number is set, also when the digits are all zero.
\<close>

definition format_fixed :: "pyfloat \<Rightarrow> nat \<Rightarrow> string" where
  "format_fixed x p =
     (case x of
        NaN \<Rightarrow> ''nan''
      | PosInf \<Rightarrow> ''inf''
      | NegInf \<Rightarrow> ''-inf''
      | NegZero \<Rightarrow> ''-'' @ fixed_str 0 p
      | Finite r \<Rightarrow> (if r < 0 then ''-'' else '''') @ fixed_str \<bar>r\<bar> p)"

text \<open>
  \<^verbatim>\<open>f"{x:.{precision}f}"\<close>: a negative precision gives the specification \<^verbatim>\<open>.-1f\<close>, which
  Python rejects with \<^verbatim>\<open>ValueError\<close>.
\<close>

definition format_float :: "pyfloat \<Rightarrow> int \<Rightarrow> error + string" where
  "format_float x precision =
     (if precision < 0 then Inl ValueError else Inr (format_fixed x (nat precision)))"

section \<open>\<^verbatim>\<open>format_units\<close>\<close>

definition units :: "string list" where
  "units = [''B'', ''KB'', ''MB'', ''GB'', ''TB'']"

text \<open>\<^verbatim>\<open>units[unit_index]\<close> for an index that is not negative.\<close>

definition list_index :: "'a list \<Rightarrow> nat \<Rightarrow> error + 'a" where
  "list_index xs i = (if i < length xs then Inr (xs ! i) else Inl IndexError)"

text \<open>
  The loop of lines 19-21, on its two variables:
  \<^verbatim>\<open>while num >= 1024 and unit_index < 4: num /= 1024; unit_index += 1\<close>.
\<close>

function format_units_loop :: "pyfloat \<Rightarrow> nat \<Rightarrow> error + pyfloat \<times> nat" where
  "format_units_loop num unit_index =
     (if float_ge num 1024 \<and> unit_index < 4 then
        (case float_truediv num (float_of_int 1024) of
           Inl e \<Rightarrow> Inl e
         | Inr q \<Rightarrow> format_units_loop q (unit_index + 1))
      else Inr (num, unit_index))"
  by pat_completeness auto
termination
  by (relation "measure (\<lambda>(num, unit_index). 4 - unit_index)") auto

declare format_units_loop.simps [simp del]

definition format_units :: "pyfloat \<Rightarrow> int \<Rightarrow> error + string" where
  "format_units num precision =
     (case format_units_loop num 0 of
        Inl e \<Rightarrow> Inl e
      | Inr (num', unit_index) \<Rightarrow>
          (case format_float num' precision of
             Inl e \<Rightarrow> Inl e
           | Inr s \<Rightarrow>
               (case list_index units unit_index of
                  Inl e \<Rightarrow> Inl e
                | Inr u \<Rightarrow> Inr (s @ '' '' @ u))))"

section \<open>\<^verbatim>\<open>ServerStatusMonitor._calc_network_speed\<close>\<close>

text \<open>
  \<^verbatim>\<open>psutil.net_io_counters()\<close> returns a named tuple of cumulative counters, of which the
  method reads \<^verbatim>\<open>bytes_sent\<close> and \<^verbatim>\<open>bytes_recv\<close>.
\<close>

record snetio =
  bytes_sent :: int
  bytes_recv :: int

text \<open>
  The operating system counts bytes in unsigned 64-bit counters, and these are the values
  the named tuple holds.
\<close>

definition counter64 :: "snetio \<Rightarrow> bool" where
  "counter64 c =
     (0 \<le> bytes_sent c \<and> bytes_sent c < 2 ^ 64 \<and> 0 \<le> bytes_recv c \<and> bytes_recv c < 2 ^ 64)"

text \<open>The two attributes \<^verbatim>\<open>__init__\<close> sets to \<^verbatim>\<open>None\<close> (lines 32-33).\<close>

record ServerStatusMonitor =
  prev_net :: "snetio option"
  prev_ts :: "pyfloat option"

definition init :: ServerStatusMonitor where
  "init = \<lparr>prev_net = None, prev_ts = None\<rparr>"

text \<open>
  Lines 64 and 65 are one expression, on \<^verbatim>\<open>upload\<close> and on \<^verbatim>\<open>download\<close>:
  \<^verbatim>\<open>f"{d / time_diff / 1024:.2f} KB/s" if d < 1048576 else f"{d / time_diff / 1048576:.2f} MB/s"\<close>
  where \<^verbatim>\<open>d\<close> is the difference of two counters, an integer.
\<close>

definition speed_str :: "int \<Rightarrow> pyfloat \<Rightarrow> error + string" where
  "speed_str d time_diff =
     (if d < 1048576 then
        (case float_truediv (float_of_int d) time_diff of
           Inl e \<Rightarrow> Inl e
         | Inr q \<Rightarrow>
             (case float_truediv q (float_of_int 1024) of
                Inl e \<Rightarrow> Inl e
              | Inr r \<Rightarrow>
                  (case format_float r 2 of
                     Inl e \<Rightarrow> Inl e
                   | Inr s \<Rightarrow> Inr (s @ '' KB/s''))))
      else
        (case float_truediv (float_of_int d) time_diff of
           Inl e \<Rightarrow> Inl e
         | Inr q \<Rightarrow>
             (case float_truediv q (float_of_int 1048576) of
                Inl e \<Rightarrow> Inl e
              | Inr r \<Rightarrow>
                  (case format_float r 2 of
                     Inl e \<Rightarrow> Inl e
                   | Inr s \<Rightarrow> Inr (s @ '' MB/s'')))))"

text \<open>
  The float \<^verbatim>\<open>d / time_diff / k\<close> of lines 64 and 65, for a \<^verbatim>\<open>time_diff\<close> that is not zero.
\<close>

abbreviation rate :: "int \<Rightarrow> pyfloat \<Rightarrow> int \<Rightarrow> pyfloat" where
  "rate d time_diff k \<equiv> float_div (float_div (float_of_int d) time_diff) (float_of_int k)"

text \<open>
  The method, with the two values it reads from its environment as arguments: \<open>current\<close>
  is \<^verbatim>\<open>psutil.net_io_counters()\<close> and \<open>now\<close> is \<^verbatim>\<open>datetime.datetime.now().timestamp()\<close>.
  It returns the object after the call and either the pair \<^verbatim>\<open>(upload, download)\<close> or the
  exception raised. An exception of line 64 or 65 leaves lines 67-68 unexecuted, so the
  object is then returned as it was.

  The test of line 59 is \<^verbatim>\<open>self._prev_net and self._prev_ts\<close>: the named tuple is true
  whenever it is not \<^verbatim>\<open>None\<close>, the timestamp when it is neither \<^verbatim>\<open>None\<close> nor zero.
\<close>

definition calc_network_speed ::
  "ServerStatusMonitor \<Rightarrow> snetio \<Rightarrow> pyfloat \<Rightarrow> ServerStatusMonitor \<times> (error + string \<times> string)"
where
  "calc_network_speed self current now =
     (let stored = self\<lparr>prev_net := Some current, prev_ts := Some now\<rparr>;
          first_sample = (stored, Inr (''0.00 KB/s'', ''0.00 KB/s''))
      in case prev_net self of
           None \<Rightarrow> first_sample
         | Some pn \<Rightarrow>
             (case prev_ts self of
                None \<Rightarrow> first_sample
              | Some pt \<Rightarrow>
                  if float_truthy pt then
                    (let time_diff = float_sub now pt;
                         upload = bytes_sent current - bytes_sent pn;
                         download = bytes_recv current - bytes_recv pn
                     in case speed_str upload time_diff of
                          Inl e \<Rightarrow> (self, Inl e)
                        | Inr up \<Rightarrow>
                            (case speed_str download time_diff of
                               Inl e \<Rightarrow> (self, Inl e)
                             | Inr down \<Rightarrow> (stored, Inr (up, down))))
                  else first_sample))"

text \<open>The test of line 59 as a predicate of the object.\<close>

definition primed :: "ServerStatusMonitor \<Rightarrow> bool" where
  "primed self =
     (case prev_net self of
        None \<Rightarrow> False
      | Some pn \<Rightarrow> (case prev_ts self of None \<Rightarrow> False | Some pt \<Rightarrow> float_truthy pt))"

text \<open>The two components of what a call returns.\<close>

definition upload_of :: "ServerStatusMonitor \<times> (error + string \<times> string) \<Rightarrow> error + string" where
  "upload_of r = map_sum id fst (snd r)"

definition download_of :: "ServerStatusMonitor \<times> (error + string \<times> string) \<Rightarrow> error + string" where
  "download_of r = map_sum id snd (snd r)"

section \<open>Signs under rounding\<close>

lemma pow2_pos: "0 < pow2 k"
  by (simp add: pow2_def)

lemma round_half_even_nonneg: "0 \<le> x \<Longrightarrow> 0 \<le> round_half_even x"
  by (simp add: round_half_even_def Let_def)

lemma round_double_sign:
  assumes "r \<noteq> 0"
  shows "round_double r \<noteq> NaN \<and> signbit (round_double r) = (r < 0)"
proof (cases "1023 < ilog2 \<bar>r\<bar>")
  case True
  with assms show ?thesis
    by (simp add: round_double_def signed_inf_def)
next
  case False
  define e where "e = max (ilog2 \<bar>r\<bar>) (- 1022)"
  define m where "m = round_half_even (\<bar>r\<bar> / pow2 (e - 52))"
  have m: "0 \<le> m"
    unfolding m_def using pow2_pos [of "e - 52"] by (intro round_half_even_nonneg) simp
  have r: "round_double r =
      (if e = 1023 \<and> m = 2 ^ 53 then signed_inf (r < 0)
       else if m = 0 then signed_zero (r < 0)
       else Finite ((if r < 0 then - 1 else 1) * of_int m * pow2 (e - 52)))"
  proof -
    have nz: "(r = 0) = False"
      using assms by simp
    have ni: "(1023 < ilog2 \<bar>r\<bar>) = False"
      using False by simp
    show ?thesis
      unfolding round_double_def Let_def e_def m_def nz ni by (simp only: if_False)
  qed
  show ?thesis
  proof (cases "m = 0")
    case True
    with r show ?thesis
      by (simp add: signed_zero_def)
  next
    case False
    with m have "0 < rat_of_int m * pow2 (e - 52)"
      using pow2_pos [of "e - 52"] by simp
    with r False show ?thesis
      by (auto simp: signed_inf_def)
  qed
qed

lemma float_of_int_sign:
  "float_of_int d \<noteq> NaN \<and> signbit (float_of_int d) = (d < 0)"
proof (cases "d = 0")
  case True
  then show ?thesis
    by (simp add: float_of_int_def round_double_def)
next
  case False
  then show ?thesis
    using round_double_sign [of "of_int d"] by (simp add: float_of_int_def)
qed

lemma float_div_sign:
  assumes "x \<noteq> NaN" and "t \<noteq> 0"
  shows "float_div x (Finite t) \<noteq> NaN \<and>
         signbit (float_div x (Finite t)) = (signbit x \<noteq> (t < 0))"
proof (cases x)
  case (Finite r)
  show ?thesis
  proof (cases "r = 0")
    case True
    with Finite assms show ?thesis
      by (simp add: float_div_def is_inf_def is_zero_def signed_zero_def)
  next
    case False
    then have "r / t \<noteq> 0"
      using assms(2) by simp
    from round_double_sign [OF this] Finite False assms show ?thesis
      by (auto simp: float_div_def is_inf_def is_zero_def divide_less_0_iff)
  qed
qed (use assms in \<open>auto simp: float_div_def is_inf_def is_zero_def signed_zero_def signed_inf_def\<close>)

lemma float_of_int_1024: "float_of_int 1024 = Finite 1024"
  by code_simp

lemma float_of_int_1048576: "float_of_int 1048576 = Finite 1048576"
  by code_simp

lemma format_fixed_minus: "signbit x \<Longrightarrow> \<exists>s. format_fixed x p = ''-'' @ s"
  by (cases x) (simp_all add: format_fixed_def)

lemma float_truediv_zero: "is_zero y \<Longrightarrow> float_truediv x y = Inl ZeroDivisionError"
  by (simp add: float_truediv_def)

lemma float_truediv_nonzero: "\<not> is_zero y \<Longrightarrow> float_truediv x y = Inr (float_div x y)"
  by (simp add: float_truediv_def)

lemma float_truediv_1024: "float_truediv x (float_of_int 1024) = Inr (float_div x (float_of_int 1024))"
  by (simp add: float_truediv_def float_of_int_1024 is_zero_def)

lemma float_truediv_1048576:
  "float_truediv x (float_of_int 1048576) = Inr (float_div x (float_of_int 1048576))"
  by (simp add: float_truediv_def float_of_int_1048576 is_zero_def)

lemma format_float_two: "format_float x 2 = Inr (format_fixed x 2)"
  by (simp add: format_float_def)


section \<open>Results that stay finite\<close>

lemma pow2_powi: "pow2 k = 2 powi k"
  by (simp add: pow2_def power_int_def field_simps)

lemma pow2_mono: "i \<le> j \<Longrightarrow> pow2 i \<le> pow2 j"
  by (simp add: pow2_powi power_int_increasing)

lemma pow2_diff: "pow2 (i - j) = pow2 i / pow2 j"
  by (simp add: pow2_powi power_int_diff)

lemma pow2_nat: "0 \<le> k \<Longrightarrow> pow2 k = 2 ^ nat k"
  by (simp add: pow2_def)

lemma ilog2_lower:
  assumes "0 < a"
  shows "pow2 (ilog2 a) \<le> a"
proof -
  obtain n d where nd: "quotient_of a = (n, d)"
    by (cases "quotient_of a")
  have d: "0 < d"
    using quotient_of_denom_pos [OF nd] .
  have a: "a = of_int n / of_int d"
    using quotient_of_div [OF nd] .
  have n: "0 < n"
    using assms d a by (simp add: zero_less_divide_iff)
  define k where "k = bitlen n - bitlen d"
  show ?thesis
  proof (cases "pow2 k \<le> a")
    case True
    then show ?thesis
      by (simp add: ilog2_def nd k_def Let_def)
  next
    case False
    have bn: "bitlen n \<ge> 1" and bd: "bitlen d \<ge> 1"
      using n d by (simp_all add: bitlen_alt_def)
    have "(2::int) ^ nat (bitlen n - 1) \<le> n"
      using bitlen_bounds [OF n] by simp
    then have "rat_of_int (2 ^ nat (bitlen n - 1)) \<le> of_int n"
      by (simp only: of_int_le_iff)
    then have ln: "pow2 (bitlen n - 1) \<le> of_int n"
      using bn by (simp add: pow2_nat)
    have "d < 2 ^ nat (bitlen d)"
      using bitlen_bounds [OF d] by simp
    then have "rat_of_int d < of_int (2 ^ nat (bitlen d))"
      by (simp only: of_int_less_iff)
    then have ud: "of_int d < pow2 (bitlen d)"
      using bd by (simp add: pow2_nat)
    have "pow2 (k - 1) = pow2 (bitlen n - 1) / pow2 (bitlen d)"
      unfolding k_def using pow2_diff [of "bitlen n - 1" "bitlen d"] by (simp add: algebra_simps)
    also have "\<dots> \<le> of_int n / pow2 (bitlen d)"
      using ln pow2_pos [of "bitlen d"] by (simp add: divide_right_mono)
    also have "\<dots> \<le> of_int n / of_int d"
      using ud n d by (intro divide_left_mono) (simp_all add: pow2_pos)
    finally have "pow2 (k - 1) \<le> a"
      using a by simp
    with False show ?thesis
      by (simp add: ilog2_def nd k_def Let_def)
  qed
qed

lemma ilog2_upper:
  assumes "0 < a"
  shows "a < pow2 (ilog2 a + 1)"
proof -
  obtain n d where nd: "quotient_of a = (n, d)"
    by (cases "quotient_of a")
  have d: "0 < d"
    using quotient_of_denom_pos [OF nd] .
  have a: "a = of_int n / of_int d"
    using quotient_of_div [OF nd] .
  have n: "0 < n"
    using assms d a by (simp add: zero_less_divide_iff)
  define k where "k = bitlen n - bitlen d"
  show ?thesis
  proof (cases "pow2 k \<le> a")
    case False
    then show ?thesis
      by (simp add: ilog2_def nd k_def Let_def)
  next
    case True
    have bn: "bitlen n \<ge> 1" and bd: "bitlen d \<ge> 1"
      using n d by (simp_all add: bitlen_alt_def)
    have "n < 2 ^ nat (bitlen n)"
      using bitlen_bounds [OF n] by simp
    then have "rat_of_int n < of_int (2 ^ nat (bitlen n))"
      by (simp only: of_int_less_iff)
    then have un: "of_int n < pow2 (bitlen n)"
      using bn by (simp add: pow2_nat)
    have "(2::int) ^ nat (bitlen d - 1) \<le> d"
      using bitlen_bounds [OF d] by simp
    then have "rat_of_int (2 ^ nat (bitlen d - 1)) \<le> of_int d"
      by (simp only: of_int_le_iff)
    then have ld: "pow2 (bitlen d - 1) \<le> of_int d"
      using bd by (simp add: pow2_nat)
    have "a = of_int n / of_int d"
      by (rule a)
    also have "\<dots> < pow2 (bitlen n) / of_int d"
      using un d by (simp add: divide_strict_right_mono)
    also have "\<dots> \<le> pow2 (bitlen n) / pow2 (bitlen d - 1)"
      using ld pow2_pos [of "bitlen d - 1"] pow2_pos [of "bitlen n"]
      by (intro divide_left_mono) simp_all
    also have "\<dots> = pow2 (k + 1)"
      unfolding k_def using pow2_diff [of "bitlen n" "bitlen d - 1"] by (simp add: algebra_simps)
    finally show ?thesis
      using True by (simp add: ilog2_def nd k_def Let_def)
  qed
qed

lemma ilog2_bound:
  assumes "0 < a" and "a < pow2 j"
  shows "ilog2 a < j"
proof (rule ccontr)
  assume "\<not> ilog2 a < j"
  then have "pow2 j \<le> pow2 (ilog2 a)"
    by (intro pow2_mono) simp
  with ilog2_lower [OF assms(1)] assms(2) show False
    by simp
qed

lemma round_half_even_upper: "of_int (round_half_even x) \<le> x + 1"
proof -
  have "rat_of_int (round_half_even x) \<le> of_int \<lfloor>x\<rfloor> + 1"
    by (simp add: round_half_even_def Let_def)
  moreover have "of_int \<lfloor>x\<rfloor> \<le> x"
    by simp
  ultimately show ?thesis
    by linarith
qed

lemma round_double_finite:
  assumes "r \<noteq> 0" and "\<bar>r\<bar> < pow2 1023"
  shows "is_finite (round_double r) \<and> \<bar>val (round_double r)\<bar> \<le> \<bar>r\<bar> + pow2 970"
proof -
  have i: "ilog2 \<bar>r\<bar> < 1023"
    using assms by (intro ilog2_bound) simp_all
  define e where "e = max (ilog2 \<bar>r\<bar>) (- 1022)"
  define m where "m = round_half_even (\<bar>r\<bar> / pow2 (e - 52))"
  have e: "e \<le> 1022"
    using i by (simp add: e_def)
  have m: "0 \<le> m"
    unfolding m_def using pow2_pos [of "e - 52"] by (intro round_half_even_nonneg) simp
  have q: "pow2 (e - 52) \<le> pow2 970"
    using e by (intro pow2_mono) simp
  have "of_int m \<le> \<bar>r\<bar> / pow2 (e - 52) + 1"
    unfolding m_def by (rule round_half_even_upper)
  then have "of_int m * pow2 (e - 52) \<le> (\<bar>r\<bar> / pow2 (e - 52) + 1) * pow2 (e - 52)"
    using pow2_pos [of "e - 52"] by (simp only: mult_le_cancel_right_pos)
  also have "\<dots> = \<bar>r\<bar> + pow2 (e - 52)"
    using pow2_pos [of "e - 52"] by (simp add: algebra_simps)
  finally have v: "of_int m * pow2 (e - 52) \<le> \<bar>r\<bar> + pow2 970"
    using q by simp
  have v0: "0 \<le> rat_of_int m * pow2 (e - 52)"
    using m pow2_pos [of "e - 52"] by simp
  have r: "round_double r =
      (if m = 0 then signed_zero (r < 0)
       else Finite ((if r < 0 then - 1 else 1) * of_int m * pow2 (e - 52)))"
  proof -
    have nz: "(r = 0) = False"
      using assms by simp
    have ni: "(1023 < ilog2 \<bar>r\<bar>) = False"
      using i by simp
    have ne: "(max (ilog2 \<bar>r\<bar>) (- 1022) = 1023 \<and>
        round_half_even (\<bar>r\<bar> / pow2 (max (ilog2 \<bar>r\<bar>) (- 1022) - 52)) = 2 ^ 53) = False"
    proof -
      have "max (ilog2 \<bar>r\<bar>) (- 1022) \<noteq> 1023"
        using e unfolding e_def by linarith
      then show ?thesis
        by blast
    qed
    show ?thesis
      unfolding round_double_def Let_def e_def m_def nz ni ne by (simp only: if_False)
  qed
  show ?thesis
  proof (cases "m = 0")
    case True
    with r pow2_pos [of 970] show ?thesis
      by (auto simp: signed_zero_def is_finite_def intro: add_nonneg_nonneg less_imp_le)
  next
    case False
    have "\<bar>(if r < 0 then - 1 else 1) * rat_of_int m * pow2 (e - 52)\<bar> = of_int m * pow2 (e - 52)"
      using m pow2_pos [of "e - 52"] by (simp add: abs_mult)
    with r False v show ?thesis
      by (simp add: is_finite_def)
  qed
qed


lemma float_div_finite:
  assumes "is_finite x" and "t \<noteq> 0" and "\<bar>val x\<bar> / \<bar>t\<bar> \<le> c" and "c < pow2 1023"
  shows "is_finite (float_div x (Finite t)) \<and> \<bar>val (float_div x (Finite t))\<bar> \<le> c + pow2 970"
proof -
  have c: "0 \<le> c"
    using assms(3) by (rule order_trans [rotated]) simp
  have zero: "is_finite (signed_zero b) \<and> \<bar>val (signed_zero b)\<bar> \<le> c + pow2 970" for b
    using c pow2_pos [of 970] by (simp add: signed_zero_def is_finite_def)
  show ?thesis
  proof (cases x)
    case (Finite r)
    show ?thesis
    proof (cases "r = 0")
      case True
      with Finite assms(2) zero show ?thesis
        by (simp add: float_div_def is_inf_def is_zero_def)
    next
      case False
      have q: "r / t \<noteq> 0"
        using False assms(2) by simp
      have b: "\<bar>r / t\<bar> \<le> c"
        using assms(3) Finite by simp
      with assms(4) have "\<bar>r / t\<bar> < pow2 1023"
        by simp
      from round_double_finite [OF q this] b
      have "is_finite (round_double (r / t)) \<and> \<bar>val (round_double (r / t))\<bar> \<le> c + pow2 970"
        by simp
      with Finite False assms(2) show ?thesis
        by (simp add: float_div_def is_inf_def is_zero_def)
    qed
  next
    case NegZero
    with assms(2) zero show ?thesis
      by (simp add: float_div_def is_inf_def is_zero_def)
  qed (use assms(1) in \<open>simp_all add: is_finite_def\<close>)
qed

lemma float_of_int_finite:
  assumes "\<bar>d\<bar> < 2 ^ 64"
  shows "is_finite (float_of_int d) \<and> \<bar>val (float_of_int d)\<bar> \<le> pow2 64 + pow2 970"
proof (cases "d = 0")
  case True
  then show ?thesis
    using pow2_pos [of 970] pow2_pos [of 64]
    by (simp add: float_of_int_def round_double_def is_finite_def)
next
  case False
  have "\<bar>rat_of_int d\<bar> < 2 ^ 64"
    using assms by (metis of_int_abs of_int_less_iff of_int_numeral of_int_power)
  then have d: "\<bar>rat_of_int d\<bar> < pow2 64"
    by (simp add: pow2_nat)
  moreover have "pow2 64 \<le> pow2 1023"
    by (simp add: pow2_mono)
  ultimately have "\<bar>rat_of_int d\<bar> < pow2 1023"
    by (rule less_le_trans)
  from round_double_finite [of "of_int d", OF _ this] False d show ?thesis
    unfolding float_of_int_def by auto
qed

lemma pow2_add: "pow2 (i + j) = pow2 i * pow2 j"
  by (simp add: pow2_powi power_int_add)

lemma rate_finite:
  assumes "\<bar>d\<bar> < 2 ^ 64" and "1 \<le> \<bar>t\<bar> * 2 ^ 30" and "k = 1024 \<or> k = 1048576"
  shows "is_finite (rate d (Finite t) k)"
proof -
  have t: "t \<noteq> 0"
    using assms(2) by auto
  have tpos: "0 < \<bar>t\<bar>"
    using t by simp
  define c1 where "c1 = pow2 94 + pow2 1000"
  have p64: "(2::rat) ^ 64 = pow2 64" and p30: "(2::rat) ^ 30 = pow2 30"
    by (simp_all add: pow2_nat)
  have x: "is_finite (float_of_int d)" "\<bar>val (float_of_int d)\<bar> \<le> pow2 64 + pow2 970"
    using float_of_int_finite [OF assms(1)] by blast+
  have "\<bar>val (float_of_int d)\<bar> / \<bar>t\<bar> \<le> (pow2 64 + pow2 970) / \<bar>t\<bar>"
    using x(2) tpos by (simp add: divide_right_mono)
  also have "\<dots> \<le> (pow2 64 + pow2 970) * pow2 30"
  proof -
    have "1 \<le> \<bar>t\<bar> * pow2 30"
      using assms(2) by (simp add: pow2_nat)
    then have "1 / \<bar>t\<bar> \<le> pow2 30"
      using tpos by (simp add: field_simps)
    moreover have "0 \<le> pow2 64 + pow2 970"
      using pow2_pos [of 64] pow2_pos [of 970] by simp
    ultimately have "(pow2 64 + pow2 970) * (1 / \<bar>t\<bar>) \<le> (pow2 64 + pow2 970) * pow2 30"
      by (rule mult_left_mono)
    then show ?thesis
      by simp
  qed
  also have "\<dots> = c1"
    using pow2_add [of 64 30] pow2_add [of 970 30] by (simp add: c1_def algebra_simps)
  finally have b1: "\<bar>val (float_of_int d)\<bar> / \<bar>t\<bar> \<le> c1" .
  have m: "pow2 94 \<le> pow2 1000" "pow2 970 \<le> pow2 1000" "pow2 1000 \<le> pow2 1020"
    by (simp_all add: pow2_mono)
  have p1020: "pow2 1023 = 8 * pow2 1020"
    using pow2_add [of 3 1020] by (simp add: pow2_nat)
  have c1: "c1 < pow2 1023"
    unfolding c1_def p1020 using m pow2_pos [of 1020] by linarith
  have q: "is_finite (float_div (float_of_int d) (Finite t))"
      "\<bar>val (float_div (float_of_int d) (Finite t))\<bar> \<le> c1 + pow2 970"
    using float_div_finite [OF x(1) t b1 c1] by simp_all
  have kk: "float_of_int k = Finite (of_int k)" "1 \<le> rat_of_int k"
    using assms(3) float_of_int_1024 float_of_int_1048576 by auto
  have k0: "rat_of_int k \<noteq> 0"
    using kk(2) by simp
  have "\<bar>val (float_div (float_of_int d) (Finite t))\<bar> / \<bar>rat_of_int k\<bar> \<le>
      \<bar>val (float_div (float_of_int d) (Finite t))\<bar>"
  proof -
    have "\<bar>rat_of_int k\<bar> = of_int k"
      using kk(2) by simp
    moreover have "\<bar>val (float_div (float_of_int d) (Finite t))\<bar> / rat_of_int k \<le>
        \<bar>val (float_div (float_of_int d) (Finite t))\<bar> / 1"
      using kk(2) by (intro divide_left_mono) simp_all
    ultimately show ?thesis
      by simp
  qed
  with q(2) have b2:
    "\<bar>val (float_div (float_of_int d) (Finite t))\<bar> / \<bar>rat_of_int k\<bar> \<le> c1 + pow2 970"
    by simp
  have c2: "c1 + pow2 970 < pow2 1023"
    unfolding c1_def p1020 using m pow2_pos [of 1020] by linarith
  show ?thesis
    using float_div_finite [OF q(1) k0 b2 c2] kk(1) by simp
qed

section \<open>The first call\<close>

text \<open>
  C4: on a monitor as \<^verbatim>\<open>__init__\<close> leaves it (nothing stored), the call returns
  \<^verbatim>\<open>"0.00 KB/s"\<close> for upload and for download, whatever the counters and the timestamp
  are, and stores the counters and the timestamp it was given.
\<close>

theorem first_call_zero_rate:
  "calc_network_speed init current now =
     (\<lparr>prev_net = Some current, prev_ts = Some now\<rparr>, Inr (''0.00 KB/s'', ''0.00 KB/s''))"
  by (simp add: calc_network_speed_def init_def)

section \<open>The unit formatter\<close>

lemma format_units_loop_total:
  "\<exists>n i. format_units_loop num k = Inr (n, i) \<and> i \<le> max k 4"
proof (induction num k rule: format_units_loop.induct)
  case (1 num unit_index)
  show ?case
  proof (cases "float_ge num 1024 \<and> unit_index < 4")
    case True
    from "1.IH" [OF True float_truediv_1024] obtain n i where
      "format_units_loop (float_div num (float_of_int 1024)) (unit_index + 1) = Inr (n, i)"
      "i \<le> max (unit_index + 1) 4"
      by blast
    with True show ?thesis
      by (subst format_units_loop.simps) (auto simp: float_truediv_1024)
  next
    case False
    then show ?thesis
      by (subst format_units_loop.simps) auto
  qed
qed

lemma format_units_loop_exit:
  "\<not> float_ge num 1024 \<Longrightarrow> format_units_loop num k = Inr (num, k)"
  by (subst format_units_loop.simps) simp

lemma list_index_units: "i \<le> 4 \<Longrightarrow> list_index units i = Inr (units ! i)"
  by (simp add: list_index_def units_def)

text \<open>
  C5: \<^verbatim>\<open>format_units\<close> gives \<^verbatim>\<open>"0.00 B"\<close> for 0, \<^verbatim>\<open>"1.00 KB"\<close> for 1024,
  \<^verbatim>\<open>"1.50 KB"\<close> for 1536 and \<^verbatim>\<open>"5.00 TB"\<close> for \<open>5 * 1024 ^ 4\<close>; \<open>1024 ^ 5\<close> stays in
  TB, as \<^verbatim>\<open>"1024.00 TB"\<close>. For every input and every precision the loop ends without an
  exception at an index inside the unit table, and the unit printed is the table's entry
  at that index: no unit beyond TB is ever chosen.
\<close>

theorem format_units_table:
  "format_units (float_of_int 0) 2 = Inr ''0.00 B'' \<and>
   format_units (float_of_int 1024) 2 = Inr ''1.00 KB'' \<and>
   format_units (float_of_int 1536) 2 = Inr ''1.50 KB'' \<and>
   format_units (float_of_int (1024 ^ 4 * 5)) 2 = Inr ''5.00 TB'' \<and>
   format_units (float_of_int (1024 ^ 5)) 2 = Inr ''1024.00 TB'' \<and>
   (\<exists>n i. format_units_loop num 0 = Inr (n, i) \<and> i < length units \<and>
      format_units num precision =
        map_sum id (\<lambda>s. s @ '' '' @ units ! i) (format_float n precision))"
proof -
  have e0: "format_units (float_of_int 0) 2 = Inr ''0.00 B''"
    by code_simp
  have e1: "format_units (float_of_int 1024) 2 = Inr ''1.00 KB''"
    by code_simp
  have e2: "format_units (float_of_int 1536) 2 = Inr ''1.50 KB''"
    by code_simp
  have e3: "format_units (float_of_int (1024 ^ 4 * 5)) 2 = Inr ''5.00 TB''"
    by code_simp
  have e4: "format_units (float_of_int (1024 ^ 5)) 2 = Inr ''1024.00 TB''"
    by code_simp
  obtain n i where l: "format_units_loop num 0 = Inr (n, i)" and i: "i \<le> 4"
    using format_units_loop_total [of num 0] by auto
  have "format_units num precision =
      map_sum id (\<lambda>s. s @ '' '' @ units ! i) (format_float n precision)"
    using l i by (simp add: format_units_def list_index_units split: sum.splits)
  moreover have "i < length units"
    using i by (simp add: units_def)
  ultimately have "\<exists>n i. format_units_loop num 0 = Inr (n, i) \<and> i < length units \<and>
      format_units num precision =
        map_sum id (\<lambda>s. s @ '' '' @ units ! i) (format_float n precision)"
    using l by blast
  with e0 e1 e2 e3 e4 show ?thesis
    by (intro conjI)
qed

text \<open>
  C9: for a strictly negative \<open>num\<close> the loop is not entered (index 0, the number as it
  was), and \<^verbatim>\<open>format_units\<close> returns what \<^verbatim>\<open>f"{num:.{precision}f}"\<close> gives for \<open>num\<close>
  itself, followed by \<^verbatim>\<open>" B"\<close>: with the default precision a minus sign, the digits of
  \<open>- num\<close> and \<^verbatim>\<open>" B"\<close>. The input is neither clamped to zero nor rejected.
\<close>

theorem format_units_negative:
  assumes "val num < 0"
  shows "format_units_loop num 0 = Inr (num, 0) \<and>
         format_units num precision =
           map_sum id (\<lambda>s. s @ '' B'') (format_float num precision) \<and>
         format_units num 2 = Inr (''-'' @ fixed_str (- val num) 2 @ '' B'')"
proof -
  obtain r where num: "num = Finite r" and r: "r < 0"
    using assms by (cases num) simp_all
  have stop: "\<not> float_ge num 1024"
    using num r by (simp add: float_ge_def)
  have l: "format_units_loop num 0 = Inr (num, 0)"
    by (rule format_units_loop_exit [OF stop])
  have f: "format_units num precision =
      map_sum id (\<lambda>s. s @ '' B'') (format_float num precision)" for precision
    using l by (simp add: format_units_def list_index_def units_def split: sum.splits)
  have "format_float num 2 = Inr (''-'' @ fixed_str (- val num) 2)"
    using num r by (simp add: format_float_def format_fixed_def abs_if)
  with l f [of precision] f [of 2] show ?thesis
    by simp
qed

theorem format_units_negative_witness:
  "val (Finite (- 5)) < 0 \<and> format_units (Finite (- 5)) 2 = Inr ''-5.00 B''"
proof -
  have h: "val (Finite (- 5)) < 0"
    by simp
  have d: "fixed_str 5 2 = ''5.00''"
    by code_simp
  have "format_units (Finite (- 5)) 2 =
      Inr (''-'' @ fixed_str (- val (Finite (- 5))) 2 @ '' B'')"
    using format_units_negative [OF h, of 2] by blast
  with d h show ?thesis
    by simp
qed

section \<open>What a call of the sampler returns\<close>

lemma speed_str_zero: "is_zero td \<Longrightarrow> speed_str d td = Inl ZeroDivisionError"
  by (simp add: speed_str_def float_truediv_def)

lemma speed_str_nonzero:
  assumes "\<not> is_zero td"
  shows "speed_str d td =
     Inr (if d < 1048576
          then format_fixed (rate d td 1024) 2 @
               '' KB/s''
          else format_fixed (rate d td 1048576) 2 @
               '' MB/s'')"
  using assms
  by (simp add: speed_str_def float_truediv_nonzero float_truediv_1024 float_truediv_1048576
      format_float_two)

lemma speed_str_returns: "\<not> is_zero td \<Longrightarrow> \<exists>s. speed_str d td = Inr s"
  using speed_str_nonzero by blast

lemma calc_network_speed_if:
  "calc_network_speed self current now =
     (if primed self then
        (case speed_str (bytes_sent current - bytes_sent (the (prev_net self)))
                (float_sub now (the (prev_ts self))) of
           Inl e \<Rightarrow> (self, Inl e)
         | Inr up \<Rightarrow>
             (case speed_str (bytes_recv current - bytes_recv (the (prev_net self)))
                     (float_sub now (the (prev_ts self))) of
                Inl e \<Rightarrow> (self, Inl e)
              | Inr down \<Rightarrow>
                  (self\<lparr>prev_net := Some current, prev_ts := Some now\<rparr>, Inr (up, down))))
      else (self\<lparr>prev_net := Some current, prev_ts := Some now\<rparr>,
            Inr (''0.00 KB/s'', ''0.00 KB/s'')))"
  by (auto simp: calc_network_speed_def primed_def Let_def split: option.splits sum.splits)

lemma calc_network_speed_unprimed:
  "\<not> primed self \<Longrightarrow> calc_network_speed self current now =
     (self\<lparr>prev_net := Some current, prev_ts := Some now\<rparr>, Inr (''0.00 KB/s'', ''0.00 KB/s''))"
  by (simp add: calc_network_speed_if)

lemma calc_network_speed_zero:
  assumes "primed self" and "is_zero (float_sub now (the (prev_ts self)))"
  shows "calc_network_speed self current now = (self, Inl ZeroDivisionError)"
  using assms by (simp add: calc_network_speed_if speed_str_zero)

lemma calc_network_speed_nonzero:
  assumes "primed self" and "\<not> is_zero (float_sub now (the (prev_ts self)))"
  shows "\<exists>up down.
     speed_str (bytes_sent current - bytes_sent (the (prev_net self)))
       (float_sub now (the (prev_ts self))) = Inr up \<and>
     speed_str (bytes_recv current - bytes_recv (the (prev_net self)))
       (float_sub now (the (prev_ts self))) = Inr down \<and>
     calc_network_speed self current now =
       (self\<lparr>prev_net := Some current, prev_ts := Some now\<rparr>, Inr (up, down))"
proof -
  obtain up where up:
    "speed_str (bytes_sent current - bytes_sent (the (prev_net self)))
       (float_sub now (the (prev_ts self))) = Inr up"
    using speed_str_returns [OF assms(2)] by blast
  obtain down where down:
    "speed_str (bytes_recv current - bytes_recv (the (prev_net self)))
       (float_sub now (the (prev_ts self))) = Inr down"
    using speed_str_returns [OF assms(2)] by blast
  show ?thesis
    using assms(1) up down by (simp add: calc_network_speed_if)
qed

lemma upload_of_calc_network_speed:
  "upload_of (calc_network_speed self current now) =
     (if primed self then
        speed_str (bytes_sent current - bytes_sent (the (prev_net self)))
          (float_sub now (the (prev_ts self)))
      else Inr ''0.00 KB/s'')"
proof (cases "primed self")
  case False
  then show ?thesis
    by (simp add: calc_network_speed_unprimed upload_of_def)
next
  case True
  show ?thesis
  proof (cases "is_zero (float_sub now (the (prev_ts self)))")
    case True
    with \<open>primed self\<close> show ?thesis
      by (simp add: calc_network_speed_zero speed_str_zero upload_of_def)
  next
    case False
    from calc_network_speed_nonzero [OF \<open>primed self\<close> False, of current]
    show ?thesis
      using \<open>primed self\<close> by (auto simp: upload_of_def)
  qed
qed

lemma download_of_calc_network_speed:
  "download_of (calc_network_speed self current now) =
     (if primed self then
        speed_str (bytes_recv current - bytes_recv (the (prev_net self)))
          (float_sub now (the (prev_ts self)))
      else Inr ''0.00 KB/s'')"
proof (cases "primed self")
  case False
  then show ?thesis
    by (simp add: calc_network_speed_unprimed download_of_def)
next
  case True
  show ?thesis
  proof (cases "is_zero (float_sub now (the (prev_ts self)))")
    case True
    with \<open>primed self\<close> show ?thesis
      by (simp add: calc_network_speed_zero speed_str_zero download_of_def)
  next
    case False
    from calc_network_speed_nonzero [OF \<open>primed self\<close> False, of current]
    show ?thesis
      using \<open>primed self\<close> by (auto simp: download_of_def)
  qed
qed

lemma primedI:
  "prev_net self = Some pn \<Longrightarrow> prev_ts self = Some pt \<Longrightarrow> float_truthy pt \<Longrightarrow> primed self"
  by (simp add: primed_def)

lemma calc_network_speed_raises_iff:
  "snd (calc_network_speed self current now) = Inl e \<longleftrightarrow>
     primed self \<and> is_zero (float_sub now (the (prev_ts self))) \<and> e = ZeroDivisionError"
proof (cases "primed self")
  case False
  then show ?thesis
    by (simp add: calc_network_speed_unprimed)
next
  case True
  show ?thesis
  proof (cases "is_zero (float_sub now (the (prev_ts self)))")
    case True
    with \<open>primed self\<close> show ?thesis
      by (auto simp: calc_network_speed_zero)
  next
    case False
    from calc_network_speed_nonzero [OF \<open>primed self\<close> False, of current]
    show ?thesis
      using \<open>primed self\<close> False by auto
  qed
qed

lemma calc_network_speed_stores:
  assumes "snd (calc_network_speed self current now) = Inr r"
  shows "fst (calc_network_speed self current now) =
     self\<lparr>prev_net := Some current, prev_ts := Some now\<rparr>"
proof (cases "primed self")
  case False
  then show ?thesis
    by (simp add: calc_network_speed_unprimed)
next
  case True
  have "\<not> is_zero (float_sub now (the (prev_ts self)))"
    using assms True by (auto simp: calc_network_speed_zero)
  from calc_network_speed_nonzero [OF True this, of current] show ?thesis
    by auto
qed

lemma calc_network_speed_keeps_snapshot:
  "prev_net self \<noteq> None \<Longrightarrow> prev_net (fst (calc_network_speed self current now)) \<noteq> None"
  by (cases "snd (calc_network_speed self current now)")
    (auto simp: calc_network_speed_raises_iff calc_network_speed_zero
      calc_network_speed_stores)

section \<open>Rates of a regular interval\<close>

text \<open>
  C6: on a monitor that passes the test of line 59, a call 10 seconds after the stored
  timestamp with 10240 more bytes sent than stored returns the upload string
  \<^verbatim>\<open>"1.00 KB/s"\<close>.
\<close>

theorem upload_ten_seconds:
  assumes "prev_net self = Some pn" and "prev_ts self = Some pt" and "float_truthy pt"
    and "float_sub now pt = Finite 10"
    and "bytes_sent current - bytes_sent pn = 10240"
  shows "upload_of (calc_network_speed self current now) = Inr ''1.00 KB/s''"
proof -
  have p: "primed self"
    using assms(1-3) by (rule primedI)
  have "speed_str 10240 (Finite 10) = Inr ''1.00 KB/s''"
    by code_simp
  then show ?thesis
    using p assms by (simp add: upload_of_calc_network_speed)
qed

theorem upload_ten_seconds_witness:
  "upload_of (calc_network_speed
      \<lparr>prev_net = Some \<lparr>bytes_sent = 1000, bytes_recv = 500\<rparr>, prev_ts = Some (Finite 100)\<rparr>
      \<lparr>bytes_sent = 11240, bytes_recv = 900\<rparr> (Finite 110)) = Inr ''1.00 KB/s''"
proof -
  have t: "float_truthy (Finite 100)"
    by (simp add: float_truthy_def is_zero_def)
  have s: "float_sub (Finite 110) (Finite 100) = Finite 10"
    by code_simp
  show ?thesis
    by (rule upload_ten_seconds [where pn = "\<lparr>bytes_sent = 1000, bytes_recv = 500\<rparr>"
          and pt = "Finite 100", OF _ _ t s])
      simp_all
qed

text \<open>
  C10: two calls at the same timestamp, on monitors with the same stored timestamp, that
  agree on the stored and on the current \<^verbatim>\<open>bytes_sent\<close> return the same upload string (or
  raise the same exception), however their \<^verbatim>\<open>bytes_recv\<close> counters differ; and the same
  holds for the download string with the roles of the two counters exchanged.
\<close>

theorem direction_independence:
  assumes "prev_ts s1 = prev_ts s2"
  shows "(map_option bytes_sent (prev_net s1) = map_option bytes_sent (prev_net s2) \<and>
          bytes_sent c1 = bytes_sent c2 \<longrightarrow>
            upload_of (calc_network_speed s1 c1 now) = upload_of (calc_network_speed s2 c2 now)) \<and>
         (map_option bytes_recv (prev_net s1) = map_option bytes_recv (prev_net s2) \<and>
          bytes_recv c1 = bytes_recv c2 \<longrightarrow>
            download_of (calc_network_speed s1 c1 now) =
            download_of (calc_network_speed s2 c2 now))"
proof -
  have p: "primed s1 = primed s2"
    if "(prev_net s1 = None) = (prev_net s2 = None)"
    using that assms by (auto simp: primed_def split: option.splits)
  have sent: "upload_of (calc_network_speed s1 c1 now) = upload_of (calc_network_speed s2 c2 now)"
    if "map_option bytes_sent (prev_net s1) = map_option bytes_sent (prev_net s2)"
      and "bytes_sent c1 = bytes_sent c2"
  proof -
    have n: "(prev_net s1 = None) = (prev_net s2 = None)"
      using that(1) by (cases "prev_net s1"; cases "prev_net s2") simp_all
    have "bytes_sent (the (prev_net s1)) = bytes_sent (the (prev_net s2))" if "primed s1"
      using that \<open>map_option bytes_sent (prev_net s1) = map_option bytes_sent (prev_net s2)\<close>
      by (cases "prev_net s1"; cases "prev_net s2") (simp_all add: primed_def)
    then show ?thesis
      using p [OF n] that(2) assms by (simp add: upload_of_calc_network_speed)
  qed
  have recv: "download_of (calc_network_speed s1 c1 now) =
      download_of (calc_network_speed s2 c2 now)"
    if "map_option bytes_recv (prev_net s1) = map_option bytes_recv (prev_net s2)"
      and "bytes_recv c1 = bytes_recv c2"
  proof -
    have n: "(prev_net s1 = None) = (prev_net s2 = None)"
      using that(1) by (cases "prev_net s1"; cases "prev_net s2") simp_all
    have "bytes_recv (the (prev_net s1)) = bytes_recv (the (prev_net s2))" if "primed s1"
      using that \<open>map_option bytes_recv (prev_net s1) = map_option bytes_recv (prev_net s2)\<close>
      by (cases "prev_net s1"; cases "prev_net s2") (simp_all add: primed_def)
    then show ?thesis
      using p [OF n] that(2) assms by (simp add: download_of_calc_network_speed)
  qed
  from sent recv show ?thesis
    by blast
qed

theorem direction_independence_witness:
  "upload_of (calc_network_speed
      \<lparr>prev_net = Some \<lparr>bytes_sent = 4096, bytes_recv = 0\<rparr>, prev_ts = Some (Finite 50)\<rparr>
      \<lparr>bytes_sent = 8192, bytes_recv = 7\<rparr> (Finite 52)) =
   upload_of (calc_network_speed
      \<lparr>prev_net = Some \<lparr>bytes_sent = 4096, bytes_recv = 999999\<rparr>, prev_ts = Some (Finite 50)\<rparr>
      \<lparr>bytes_sent = 8192, bytes_recv = 123\<rparr> (Finite 52))"
proof -
  have "prev_ts \<lparr>prev_net = Some \<lparr>bytes_sent = 4096, bytes_recv = 0\<rparr>,
          prev_ts = Some (Finite 50)\<rparr> =
        prev_ts \<lparr>prev_net = Some \<lparr>bytes_sent = 4096, bytes_recv = 999999\<rparr>,
          prev_ts = Some (Finite 50)\<rparr>"
    by simp
  from direction_independence [OF this,
      of "\<lparr>bytes_sent = 8192, bytes_recv = 7\<rparr>" "\<lparr>bytes_sent = 8192, bytes_recv = 123\<rparr>" "Finite 52"]
  show ?thesis
    by simp
qed

section \<open>The sign of a rate\<close>

lemma rate_sign:
  assumes "t \<noteq> 0" and "0 < k"
  shows "float_div (float_div (float_of_int d) (Finite t)) (Finite k) \<noteq> NaN \<and>
         signbit (float_div (float_div (float_of_int d) (Finite t)) (Finite k)) =
           ((d < 0) \<noteq> (t < 0))"
proof -
  have q: "float_div (float_of_int d) (Finite t) \<noteq> NaN"
      "signbit (float_div (float_of_int d) (Finite t)) = ((d < 0) \<noteq> (t < 0))"
    using float_div_sign [OF _ assms(1), of "float_of_int d"] float_of_int_sign [of d]
    by simp_all
  have k: "k \<noteq> 0" "\<not> k < 0"
    using assms(2) by simp_all
  show ?thesis
    using float_div_sign [OF q(1) k(1)] q(2) k(2) by simp
qed

section \<open>Intervals that are not positive\<close>

text \<open>
  C1, as the code has it: there is no guard on the interval. On a monitor that passes the
  test of line 59, with 64-bit counters, a call whose timestamp is strictly less than the
  stored one (the float \<^verbatim>\<open>time_diff\<close> is a negative number) raises nothing and stores the
  snapshot. For each direction it returns what line 64 computes: the float
  \<^verbatim>\<open>d / time_diff / 1024\<close> printed with two decimals and \<^verbatim>\<open>KB/s\<close> when the counter
  difference \<open>d\<close> is below 1048576, the float \<^verbatim>\<open>d / time_diff / 1048576\<close> printed with two
  decimals and \<^verbatim>\<open>MB/s\<close> otherwise. No zero-rate result is put in its place: whenever \<open>d\<close>
  is not negative the string starts with a minus sign. When the interval is at least
  \<open>2 ^ (-30)\<close> seconds long, the float that is printed is a number, neither an infinity
  nor a NaN. Nothing is said here of a call at the stored timestamp itself.
\<close>

theorem negative_elapsed_signed_rate:
  assumes "prev_net self = Some pn" and "prev_ts self = Some pt" and "float_truthy pt"
    and "float_sub now pt = Finite elapsed" and "elapsed < 0"
    and "counter64 pn" and "counter64 current"
  shows "fst (calc_network_speed self current now) =
           self\<lparr>prev_net := Some current, prev_ts := Some now\<rparr> \<and>
         upload_of (calc_network_speed self current now) =
           Inr (if bytes_sent current - bytes_sent pn < 1048576
                then format_fixed (rate (bytes_sent current - bytes_sent pn)
                       (Finite elapsed) 1024) 2 @ '' KB/s''
                else format_fixed (rate (bytes_sent current - bytes_sent pn)
                       (Finite elapsed) 1048576) 2 @ '' MB/s'') \<and>
         download_of (calc_network_speed self current now) =
           Inr (if bytes_recv current - bytes_recv pn < 1048576
                then format_fixed (rate (bytes_recv current - bytes_recv pn)
                       (Finite elapsed) 1024) 2 @ '' KB/s''
                else format_fixed (rate (bytes_recv current - bytes_recv pn)
                       (Finite elapsed) 1048576) 2 @ '' MB/s'') \<and>
         (bytes_sent pn \<le> bytes_sent current \<longrightarrow>
            (\<exists>s. upload_of (calc_network_speed self current now) = Inr (''-'' @ s))) \<and>
         (bytes_recv pn \<le> bytes_recv current \<longrightarrow>
            (\<exists>s. download_of (calc_network_speed self current now) = Inr (''-'' @ s))) \<and>
         (1 \<le> \<bar>elapsed\<bar> * 2 ^ 30 \<longrightarrow>
            is_finite (rate (bytes_sent current - bytes_sent pn) (Finite elapsed) 1024) \<and>
            is_finite (rate (bytes_sent current - bytes_sent pn) (Finite elapsed) 1048576) \<and>
            is_finite (rate (bytes_recv current - bytes_recv pn) (Finite elapsed) 1024) \<and>
            is_finite (rate (bytes_recv current - bytes_recv pn) (Finite elapsed) 1048576))"
proof -
  have p: "primed self"
    using assms(1-3) by (rule primedI)
  have du: "\<bar>bytes_sent current - bytes_sent pn\<bar> < 2 ^ 64"
    using assms(6,7) by (simp add: counter64_def abs_less_iff)
  have dd: "\<bar>bytes_recv current - bytes_recv pn\<bar> < 2 ^ 64"
    using assms(6,7) by (simp add: counter64_def abs_less_iff)
  have fin: "is_finite (rate (bytes_sent current - bytes_sent pn) (Finite elapsed) 1024) \<and>
      is_finite (rate (bytes_sent current - bytes_sent pn) (Finite elapsed) 1048576) \<and>
      is_finite (rate (bytes_recv current - bytes_recv pn) (Finite elapsed) 1024) \<and>
      is_finite (rate (bytes_recv current - bytes_recv pn) (Finite elapsed) 1048576)"
    if "1 \<le> \<bar>elapsed\<bar> * 2 ^ 30"
    using rate_finite [OF du that] rate_finite [OF dd that] by simp
  have nz: "\<not> is_zero (float_sub now (the (prev_ts self)))"
    using assms(2,4,5) by (simp add: is_zero_def)
  have nz': "\<not> is_zero (Finite elapsed)"
    using assms(5) by (simp add: is_zero_def)
  have st: "fst (calc_network_speed self current now) =
      self\<lparr>prev_net := Some current, prev_ts := Some now\<rparr>"
    using calc_network_speed_nonzero [OF p nz, of current] by auto
  have up: "upload_of (calc_network_speed self current now) =
      speed_str (bytes_sent current - bytes_sent pn) (Finite elapsed)"
    using p assms(1,2,4) by (simp add: upload_of_calc_network_speed)
  have down: "download_of (calc_network_speed self current now) =
      speed_str (bytes_recv current - bytes_recv pn) (Finite elapsed)"
    using p assms(1,2,4) by (simp add: download_of_calc_network_speed)
  have minus: "\<exists>s. speed_str d (Finite elapsed) = Inr (''-'' @ s)" if "0 \<le> d" for d
  proof -
    have t: "elapsed \<noteq> 0"
      using assms(5) by simp
    have "signbit (float_div (float_div (float_of_int d) (Finite elapsed)) (Finite k))"
      if "0 < k" for k
      using rate_sign [OF t that, of d] \<open>0 \<le> d\<close> assms(5) by simp
    from this [of 1024] this [of 1048576]
    obtain s1 s2 where
      "format_fixed (rate d (Finite elapsed) 1024) 2 = ''-'' @ s1"
      "format_fixed (rate d (Finite elapsed) 1048576) 2 = ''-'' @ s2"
      using format_fixed_minus
      by (metis float_of_int_1024 float_of_int_1048576 zero_less_numeral)
    then show ?thesis
      unfolding speed_str_nonzero [OF nz'] by (cases "d < 1048576") simp_all
  qed
  show ?thesis
    unfolding up down using st speed_str_nonzero [OF nz'] minus fin by simp
qed

theorem negative_elapsed_signed_rate_witness:
  "calc_network_speed
      \<lparr>prev_net = Some \<lparr>bytes_sent = 0, bytes_recv = 0\<rparr>, prev_ts = Some (Finite 1700000100)\<rparr>
      \<lparr>bytes_sent = 512, bytes_recv = 0\<rparr> (Finite 1700000000) =
   (\<lparr>prev_net = Some \<lparr>bytes_sent = 512, bytes_recv = 0\<rparr>, prev_ts = Some (Finite 1700000000)\<rparr>,
    Inr (''-0.01 KB/s'', ''-0.00 KB/s''))"
proof -
  have t: "float_truthy (Finite 1700000100)"
    by (simp add: float_truthy_def is_zero_def)
  have e: "float_sub (Finite 1700000000) (Finite 1700000100) = Finite (- 100)"
    by code_simp
  have c: "counter64 \<lparr>bytes_sent = 0, bytes_recv = 0\<rparr>" "counter64 \<lparr>bytes_sent = 512, bytes_recv = 0\<rparr>"
    by (simp_all add: counter64_def)
  have u: "format_fixed (rate 512 (Finite (- 100)) 1024) 2 = ''-0.01''"
    by code_simp
  have d: "format_fixed (rate 0 (Finite (- 100)) 1024) 2 = ''-0.00''"
    by code_simp
  from negative_elapsed_signed_rate [where pn = "\<lparr>bytes_sent = 0, bytes_recv = 0\<rparr>"
      and pt = "Finite 1700000100" and now = "Finite 1700000000" and elapsed = "- 100"
      and self = "\<lparr>prev_net = Some \<lparr>bytes_sent = 0, bytes_recv = 0\<rparr>,
        prev_ts = Some (Finite 1700000100)\<rparr>"
      and current = "\<lparr>bytes_sent = 512, bytes_recv = 0\<rparr>", OF _ _ t e _ c]
  have "fst (calc_network_speed
          \<lparr>prev_net = Some \<lparr>bytes_sent = 0, bytes_recv = 0\<rparr>, prev_ts = Some (Finite 1700000100)\<rparr>
          \<lparr>bytes_sent = 512, bytes_recv = 0\<rparr> (Finite 1700000000)) =
        \<lparr>prev_net = Some \<lparr>bytes_sent = 512, bytes_recv = 0\<rparr>, prev_ts = Some (Finite 1700000000)\<rparr>"
    and "upload_of (calc_network_speed
          \<lparr>prev_net = Some \<lparr>bytes_sent = 0, bytes_recv = 0\<rparr>, prev_ts = Some (Finite 1700000100)\<rparr>
          \<lparr>bytes_sent = 512, bytes_recv = 0\<rparr> (Finite 1700000000)) = Inr ''-0.01 KB/s''"
    and "download_of (calc_network_speed
          \<lparr>prev_net = Some \<lparr>bytes_sent = 0, bytes_recv = 0\<rparr>, prev_ts = Some (Finite 1700000100)\<rparr>
          \<lparr>bytes_sent = 512, bytes_recv = 0\<rparr> (Finite 1700000000)) = Inr ''-0.00 KB/s''"
    using u d by simp_all
  then show ?thesis
    by (cases "calc_network_speed
          \<lparr>prev_net = Some \<lparr>bytes_sent = 0, bytes_recv = 0\<rparr>, prev_ts = Some (Finite 1700000100)\<rparr>
          \<lparr>bytes_sent = 512, bytes_recv = 0\<rparr> (Finite 1700000000)")
      (auto simp: upload_of_def download_of_def map_sum_def split: sum.splits)
qed

theorem degenerate_interval_counterexample:
  "calc_network_speed
      \<lparr>prev_net = Some \<lparr>bytes_sent = 1000, bytes_recv = 1000\<rparr>, prev_ts = Some (Finite 500)\<rparr>
      \<lparr>bytes_sent = 3048, bytes_recv = 1000\<rparr> (Finite 498) =
   (\<lparr>prev_net = Some \<lparr>bytes_sent = 3048, bytes_recv = 1000\<rparr>, prev_ts = Some (Finite 498)\<rparr>,
    Inr (''-1.00 KB/s'', ''-0.00 KB/s'')) \<and>
   calc_network_speed
      \<lparr>prev_net = Some \<lparr>bytes_sent = 1000, bytes_recv = 1000\<rparr>, prev_ts = Some (Finite 500)\<rparr>
      \<lparr>bytes_sent = 3048, bytes_recv = 1000\<rparr> (Finite 500) =
   (\<lparr>prev_net = Some \<lparr>bytes_sent = 1000, bytes_recv = 1000\<rparr>, prev_ts = Some (Finite 500)\<rparr>,
    Inl ZeroDivisionError)"
  by code_simp

section \<open>Counters that went back\<close>

text \<open>
  C2, as the code has it: no clamp and no new baseline. On a monitor that passes the test
  of line 59, with 64-bit counters and an interval \<^verbatim>\<open>time_diff\<close> that is a number other
  than zero, a counter that is smaller than the stored one gives, for its own direction
  only, the float \<^verbatim>\<open>d / time_diff / 1024\<close> of the negative difference \<open>d\<close>, printed with
  two decimals and \<^verbatim>\<open>KB/s\<close>: the string starts with a minus sign whenever the interval
  is positive. Each direction reads its own counter.
\<close>

theorem counter_regression_signed_rate:
  assumes "prev_net self = Some pn" and "prev_ts self = Some pt" and "float_truthy pt"
    and "float_sub now pt = Finite elapsed" and "elapsed \<noteq> 0"
    and "counter64 pn" and "counter64 current"
  shows "(bytes_sent current < bytes_sent pn \<longrightarrow>
            upload_of (calc_network_speed self current now) =
              Inr (format_fixed (rate (bytes_sent current - bytes_sent pn)
                     (Finite elapsed) 1024) 2 @ '' KB/s'') \<and>
            (0 < elapsed \<longrightarrow>
               (\<exists>s. upload_of (calc_network_speed self current now) =
                  Inr (''-'' @ s @ '' KB/s'')))) \<and>
         (bytes_recv current < bytes_recv pn \<longrightarrow>
            download_of (calc_network_speed self current now) =
              Inr (format_fixed (rate (bytes_recv current - bytes_recv pn)
                     (Finite elapsed) 1024) 2 @ '' KB/s'') \<and>
            (0 < elapsed \<longrightarrow>
               (\<exists>s. download_of (calc_network_speed self current now) =
                  Inr (''-'' @ s @ '' KB/s''))))"
proof -
  have p: "primed self"
    using assms(1-3) by (rule primedI)
  have nz: "\<not> is_zero (Finite elapsed)"
    using assms(5) by (simp add: is_zero_def)
  have up: "upload_of (calc_network_speed self current now) =
      speed_str (bytes_sent current - bytes_sent pn) (Finite elapsed)"
    using p assms(1,2,4) by (simp add: upload_of_calc_network_speed)
  have down: "download_of (calc_network_speed self current now) =
      speed_str (bytes_recv current - bytes_recv pn) (Finite elapsed)"
    using p assms(1,2,4) by (simp add: download_of_calc_network_speed)
  have kb: "speed_str d (Finite elapsed) =
      Inr (format_fixed (rate d (Finite elapsed) 1024) 2 @ '' KB/s'')" if "d < 0" for d
    using that by (simp add: speed_str_nonzero [OF nz])
  have minus: "\<exists>s. speed_str d (Finite elapsed) = Inr (''-'' @ s @ '' KB/s'')"
    if "d < 0" and "0 < elapsed" for d
  proof -
    have "signbit (float_div (float_div (float_of_int d) (Finite elapsed)) (Finite 1024))"
      using rate_sign [OF assms(5), of 1024 d] that by simp
    then obtain s where
      "format_fixed (rate d (Finite elapsed) 1024) 2 = ''-'' @ s"
      using format_fixed_minus by (metis float_of_int_1024)
    then show ?thesis
      unfolding kb [OF that(1)] by simp
  qed
  show ?thesis
    unfolding up down using kb minus by simp
qed

theorem counter_regression_signed_rate_witness:
  "upload_of (calc_network_speed
      \<lparr>prev_net = Some \<lparr>bytes_sent = 512, bytes_recv = 20480\<rparr>, prev_ts = Some (Finite 1700000000)\<rparr>
      \<lparr>bytes_sent = 0, bytes_recv = 0\<rparr> (Finite 1700000100)) = Inr ''-0.01 KB/s'' \<and>
   download_of (calc_network_speed
      \<lparr>prev_net = Some \<lparr>bytes_sent = 512, bytes_recv = 20480\<rparr>, prev_ts = Some (Finite 1700000000)\<rparr>
      \<lparr>bytes_sent = 0, bytes_recv = 0\<rparr> (Finite 1700000100)) = Inr ''-0.20 KB/s''"
proof -
  have t: "float_truthy (Finite 1700000000)"
    by (simp add: float_truthy_def is_zero_def)
  have e: "float_sub (Finite 1700000100) (Finite 1700000000) = Finite 100"
    by code_simp
  have c: "counter64 \<lparr>bytes_sent = 512, bytes_recv = 20480\<rparr>"
      "counter64 \<lparr>bytes_sent = 0, bytes_recv = 0\<rparr>"
    by (simp_all add: counter64_def)
  have u: "format_fixed (rate (- 512) (Finite 100) 1024) 2 = ''-0.01''"
    by code_simp
  have d: "format_fixed (rate (- 20480) (Finite 100) 1024) 2 = ''-0.20''"
    by code_simp
  from counter_regression_signed_rate [where pn = "\<lparr>bytes_sent = 512, bytes_recv = 20480\<rparr>"
      and pt = "Finite 1700000000" and now = "Finite 1700000100" and elapsed = 100
      and self = "\<lparr>prev_net = Some \<lparr>bytes_sent = 512, bytes_recv = 20480\<rparr>,
        prev_ts = Some (Finite 1700000000)\<rparr>"
      and current = "\<lparr>bytes_sent = 0, bytes_recv = 0\<rparr>", OF _ _ t e _ c]
  show ?thesis
    using u d by simp
qed

theorem counter_regression_counterexample:
  "calc_network_speed
      \<lparr>prev_net = Some \<lparr>bytes_sent = 2048, bytes_recv = 0\<rparr>, prev_ts = Some (Finite 100)\<rparr>
      \<lparr>bytes_sent = 1024, bytes_recv = 1024\<rparr> (Finite 101) =
   (\<lparr>prev_net = Some \<lparr>bytes_sent = 1024, bytes_recv = 1024\<rparr>, prev_ts = Some (Finite 101)\<rparr>,
    Inr (''-1.00 KB/s'', ''1.00 KB/s''))"
  by code_simp

section \<open>The choice of the unit\<close>

text \<open>
  C3 at two calls: line 64 compares the counter difference of the interval with 1048576,
  not the rate it prints. 5 MiB sent in an hour, 1456 bytes per second, are printed in
  \<^verbatim>\<open>MB/s\<close>, as \<^verbatim>\<open>"0.00 MB/s"\<close>; 262144 bytes sent in a quarter of a second, exactly
  1048576 bytes per second, are printed in \<^verbatim>\<open>KB/s\<close>, as \<^verbatim>\<open>"1024.00 KB/s"\<close>.
\<close>

theorem unit_follows_byte_difference:
  "upload_of (calc_network_speed
      \<lparr>prev_net = Some \<lparr>bytes_sent = 0, bytes_recv = 0\<rparr>, prev_ts = Some (Finite 1700000000)\<rparr>
      \<lparr>bytes_sent = 5242880, bytes_recv = 0\<rparr> (Finite 1700003600)) = Inr ''0.00 MB/s'' \<and>
   rat_of_int (5242880 - 0) / (1700003600 - 1700000000) < 1048576 \<and>
   upload_of (calc_network_speed
      \<lparr>prev_net = Some \<lparr>bytes_sent = 0, bytes_recv = 0\<rparr>, prev_ts = Some (Finite 1700000000)\<rparr>
      \<lparr>bytes_sent = 262144, bytes_recv = 0\<rparr> (Finite (6800000001 / 4))) = Inr ''1024.00 KB/s'' \<and>
   rat_of_int (262144 - 0) / (6800000001 / 4 - 1700000000) = 1048576"
  by code_simp

section \<open>Two calls at one timestamp\<close>

text \<open>
  C7 at a call whose timestamp equals the stored one: line 64 raises
  \<^verbatim>\<open>ZeroDivisionError\<close> before lines 67-68 run, so the monitor still holds the old
  counters and not the ones of the call.
\<close>

theorem same_timestamp_keeps_old_snapshot:
  "fst (calc_network_speed
      \<lparr>prev_net = Some \<lparr>bytes_sent = 5000, bytes_recv = 7000\<rparr>, prev_ts = Some (Finite 1700000000)\<rparr>
      \<lparr>bytes_sent = 6000, bytes_recv = 9000\<rparr> (Finite 1700000000)) =
     \<lparr>prev_net = Some \<lparr>bytes_sent = 5000, bytes_recv = 7000\<rparr>, prev_ts = Some (Finite 1700000000)\<rparr> \<and>
   snd (calc_network_speed
      \<lparr>prev_net = Some \<lparr>bytes_sent = 5000, bytes_recv = 7000\<rparr>, prev_ts = Some (Finite 1700000000)\<rparr>
      \<lparr>bytes_sent = 6000, bytes_recv = 9000\<rparr> (Finite 1700000000)) = Inl ZeroDivisionError"
  by code_simp

text \<open>
  C8 at two calls with the same timestamp on a new monitor: the first returns the two
  \<^verbatim>\<open>"0.00 KB/s"\<close> strings, the second raises \<^verbatim>\<open>ZeroDivisionError\<close> out of the method.
\<close>

theorem second_call_same_timestamp_raises:
  "snd (calc_network_speed init \<lparr>bytes_sent = 4096, bytes_recv = 8192\<rparr> (Finite 1700000000)) =
     Inr (''0.00 KB/s'', ''0.00 KB/s'') \<and>
   snd (calc_network_speed
      (fst (calc_network_speed init \<lparr>bytes_sent = 4096, bytes_recv = 8192\<rparr> (Finite 1700000000)))
      \<lparr>bytes_sent = 4096, bytes_recv = 8192\<rparr> (Finite 1700000000)) = Inl ZeroDivisionError"
  by code_simp

end
